theory Spec2Isabelle
  imports Main "HOL-Library.Word" "HOL-Library.Sublist"
begin

section \<open>The recorder: data model\<close>

text \<open>
  The program is \<^verbatim>\<open>src/recorder/recorder.cpp\<close>. It is modelled for the LP64 data model of
  the platforms its build line (\<^verbatim>\<open>g++ recorder.cpp -o recorder -lportaudio -lsndfile\<close>)
  targets: \<^verbatim>\<open>size_t\<close> and \<^verbatim>\<open>unsigned long\<close> are 64-bit words whose arithmetic wraps,
  \<^verbatim>\<open>int\<close> is a signed 32-bit word.

  A sample is a \<^verbatim>\<open>float\<close>. The program never computes with samples, it only stores the
  constant \<^verbatim>\<open>0.0f\<close> and copies samples from the input, so a sample is modelled by its
  32-bit pattern; \<^verbatim>\<open>0.0f\<close> is the pattern \<open>0\<close>.
\<close>

type_synonym sample = "32 word"
type_synonym size_t = "64 word"
type_synonym ulong = "64 word"
type_synonym cint = "32 word"

subsection \<open>The compile-time configuration (lines 10 to 13)\<close>

definition SAMPLE_RATE :: cint where
  "SAMPLE_RATE = 44100"

definition FRAMES_PER_BUFFER :: ulong where
  "FRAMES_PER_BUFFER = 512"

definition NUM_SECONDS :: cint where
  "NUM_SECONDS = 5"

definition NUM_CHANNELS :: cint where
  "NUM_CHANNELS = 1"

subsection \<open>\<^verbatim>\<open>std::vector<float>\<close>\<close>

text \<open>
  The vector is the list of its elements together with its capacity. \<open>reallocs\<close> is a
  ghost counter of the reallocations the vector has gone through: \<^verbatim>\<open>push_back\<close> on a vector
  whose size has reached its capacity reallocates (libstdc++ grows the capacity to
  \<open>size + max size 1\<close>), and \<^verbatim>\<open>reserve\<close> reallocates when it is asked for more than the
  current capacity. Memory is unbounded here: no allocation fails. The callback with an
  allocator that can fail is modelled separately below.
\<close>

record vector =
  elems :: "sample list"
  capacity :: nat
  reallocs :: nat

definition empty_vector :: vector where
  "empty_vector = \<lparr>elems = [], capacity = 0, reallocs = 0\<rparr>"

definition vsize :: "vector \<Rightarrow> size_t" where
  "vsize v = of_nat (length (elems v))"

definition reserve :: "vector \<Rightarrow> nat \<Rightarrow> vector" where
  "reserve v n =
     (if capacity v < n then v\<lparr>capacity := n, reallocs := Suc (reallocs v)\<rparr> else v)"

definition push_back :: "vector \<Rightarrow> sample \<Rightarrow> vector" where
  "push_back v x =
     (if length (elems v) < capacity v then v\<lparr>elems := elems v @ [x]\<rparr>
      else v\<lparr>elems := elems v @ [x],
             capacity := length (elems v) + max (length (elems v)) 1,
             reallocs := Suc (reallocs v)\<rparr>)"

subsection \<open>\<^verbatim>\<open>struct RecordData\<close> (lines 17 to 21)\<close>

record RecordData =
  recordedSamples :: vector
  recording :: bool
  maxSamples :: size_t

definition defaultData :: RecordData where
  "defaultData = \<lparr>recordedSamples = empty_vector, recording = True, maxSamples = 0\<rparr>"

datatype PaStreamCallbackResult = paContinue | paComplete | paAbort

section \<open>The producer callback (lines 24 to 56)\<close>

text \<open>
  \<^verbatim>\<open>inputBuffer\<close> is a pointer: \<open>None\<close> is \<^verbatim>\<open>NULL\<close>, and \<open>Some buf\<close> is the memory it points
  to, \<open>buf k\<close> being the sample at \<^verbatim>\<open>rptr[k]\<close>. The read pointer \<^verbatim>\<open>rptr\<close> is the offset
  into that memory. The test of line 36 and the subtraction of line 37 are the unsigned
  64-bit operations of the source. The parameters \<^verbatim>\<open>outputBuffer\<close>, \<^verbatim>\<open>timeInfo\<close> and
  \<^verbatim>\<open>statusFlags\<close> are not used by the callback and are left out.
\<close>

definition limitHit :: "ulong \<Rightarrow> RecordData \<Rightarrow> bool" where
  "limitHit framesPerBuffer d \<longleftrightarrow>
     vsize (recordedSamples d) + framesPerBuffer > maxSamples d \<and> maxSamples d > 0"

definition framesToRecord :: "ulong \<Rightarrow> RecordData \<Rightarrow> ulong" where
  "framesToRecord framesPerBuffer d =
     (if limitHit framesPerBuffer d then maxSamples d - vsize (recordedSamples d)
      else framesPerBuffer)"

text \<open>The loop of lines 44 to 46: \<^verbatim>\<open>for (i = 0; i < framesToRecord; i++) push_back(0.0f)\<close>.\<close>

function zeroLoop :: "ulong \<Rightarrow> ulong \<Rightarrow> vector \<Rightarrow> vector" where
  "zeroLoop i n v = (if i < n then zeroLoop (i + 1) n (push_back v 0) else v)"
  by pat_completeness auto
termination
proof (relation "measure (\<lambda>(i, n, v). unat n - unat i)")
  show "wf (measure (\<lambda>(i, n, v). unat n - unat i))"
    by simp
next
  fix i n :: ulong and v :: vector
  assume "i < n"
  then have "unat n - unat (i + 1) < unat n - unat i"
    by unat_arith
  then show "((i + 1, n, push_back v 0), (i, n, v)) \<in> measure (\<lambda>(i, n, v). unat n - unat i)"
    by simp
qed

text \<open>The loop of lines 48 to 51: \<^verbatim>\<open>for (i = 0; i < framesToRecord; i++) push_back( *rptr++ )\<close>.\<close>

function copyLoop :: "ulong \<Rightarrow> ulong \<Rightarrow> (nat \<Rightarrow> sample) \<Rightarrow> nat \<Rightarrow> vector \<Rightarrow> vector" where
  "copyLoop i n buf rptr v =
     (if i < n then copyLoop (i + 1) n buf (Suc rptr) (push_back v (buf rptr)) else v)"
  by pat_completeness auto
termination
proof (relation "measure (\<lambda>(i, n, buf, rptr, v). unat n - unat i)")
  show "wf (measure (\<lambda>(i, n, buf, rptr, v). unat n - unat i))"
    by simp
next
  fix i n :: ulong and buf :: "nat \<Rightarrow> sample" and rptr :: nat and v :: vector
  assume "i < n"
  then have "unat n - unat (i + 1) < unat n - unat i"
    by unat_arith
  then show "((i + 1, n, buf, Suc rptr, push_back v (buf rptr)), (i, n, buf, rptr, v))
      \<in> measure (\<lambda>(i, n, buf, rptr, v). unat n - unat i)"
    by simp
qed

definition recordCallback ::
  "(nat \<Rightarrow> sample) option \<Rightarrow> ulong \<Rightarrow> RecordData \<Rightarrow> PaStreamCallbackResult \<times> RecordData"
where
  "recordCallback inputBuffer framesPerBuffer d =
     (let n = framesToRecord framesPerBuffer d;
          d1 = (if limitHit framesPerBuffer d then d\<lparr>recording := False\<rparr> else d);
          d2 = (case inputBuffer of
                  None \<Rightarrow> d1\<lparr>recordedSamples := zeroLoop 0 n (recordedSamples d1)\<rparr>
                | Some buf \<Rightarrow> d1\<lparr>recordedSamples := copyLoop 0 n buf 0 (recordedSamples d1)\<rparr>)
      in (if recording d2 then paContinue else paComplete, d2))"

section \<open>Sequences of invocations\<close>

text \<open>
  What can happen to the capture state: the transport invokes the callback with some input
  pointer and frame count, or the orchestration thread executes line 110,
  \<^verbatim>\<open>data.recording = false\<close>. A run is any sequence of these, in the order they take
  effect.
\<close>

datatype event = Invoke "(nat \<Rightarrow> sample) option" ulong | StopSignal

fun exec :: "event \<Rightarrow> RecordData \<Rightarrow> RecordData" where
  "exec (Invoke inputBuffer framesPerBuffer) d = snd (recordCallback inputBuffer framesPerBuffer d)"
| "exec StopSignal d = d\<lparr>recording := False\<rparr>"

primrec run :: "event list \<Rightarrow> RecordData \<Rightarrow> RecordData" where
  "run [] d = d"
| "run (e # es) d = run es (exec e d)"

section \<open>The orchestration (lines 70 to 158)\<close>

text \<open>Lines 74 to 77: the capture state before the transport starts.\<close>

definition initData :: RecordData where
  "initData =
     (let data = defaultData;
          totalFrames = NUM_SECONDS * SAMPLE_RATE;
          data = data\<lparr>maxSamples := scast (totalFrames * NUM_CHANNELS)\<rparr>;
          data = data\<lparr>recordedSamples := reserve (recordedSamples data) (unat (maxSamples data))\<rparr>
      in data)"

text \<open>
  The stream is opened with \<^verbatim>\<open>FRAMES_PER_BUFFER\<close> frames per buffer (line 98), so PortAudio
  invokes the callback with that frame count, one invocation per delivered buffer, for as
  long as the stream is active: it stops invoking once the callback has returned anything
  but \<^verbatim>\<open>paContinue\<close>.
\<close>

fun transport :: "bool \<Rightarrow> (nat \<Rightarrow> sample) option list \<Rightarrow> RecordData \<Rightarrow> bool \<times> RecordData" where
  "transport active [] d = (active, d)"
| "transport active (inputBuffer # rest) d =
     (if active
      then (let (r, d') = recordCallback inputBuffer FRAMES_PER_BUFFER d
            in transport (r = paContinue) rest d')
      else (active, d))"

text \<open>
  Lines 105 to 116: the buffers \<open>early\<close> are delivered while \<^verbatim>\<open>main\<close> sleeps, then line 110
  clears the flag, then the buffers \<open>late\<close> are delivered before the stream is stopped.
\<close>

definition capture ::
  "(nat \<Rightarrow> sample) option list \<Rightarrow> (nat \<Rightarrow> sample) option list \<Rightarrow> RecordData \<Rightarrow> RecordData"
where
  "capture early late d =
     (let (active, d1) = transport True early d;
          d2 = d1\<lparr>recording := False\<rparr>
      in snd (transport active late d2))"

text \<open>
  What \<^verbatim>\<open>main\<close> gets from PortAudio, libsndfile and the scheduler. \<^verbatim>\<open>PaError\<close> and
  \<^verbatim>\<open>PaDeviceIndex\<close> are C \<^verbatim>\<open>int\<close>s, \<^verbatim>\<open>sf_count_t\<close> is a 64-bit integer.
\<close>

record Env =
  Pa_Initialize :: int
  Pa_GetDefaultInputDevice :: int
  Pa_OpenStream :: int
  Pa_StartStream :: int
  delivered_early :: "(nat \<Rightarrow> sample) option list"
  delivered_late :: "(nat \<Rightarrow> sample) option list"
  Pa_StopStream :: int
  Pa_CloseStream :: int
  sf_open :: bool
  sf_write_float :: "64 word"
  sf_close :: int

definition paNoError :: int where
  "paNoError = 0"

definition paNoDevice :: int where
  "paNoDevice = - 1"

text \<open>The lines written to \<^verbatim>\<open>stderr\<close>.\<close>

datatype diagnostic =
    PortAudioError string int
  | NoDefaultInputDevice
  | ErrorOpeningOutputFile
  | ErrorWritingSamples size_t "64 word"
  | ErrorClosingOutputFile

text \<open>
  \<^verbatim>\<open>handlePaError\<close> (lines 59 to 67) ends the process with \<^verbatim>\<open>exit(1)\<close> on an error:
  \<open>Some\<close> is the exit code and what was printed, \<open>None\<close> is the return to the caller.
\<close>

definition handlePaError :: "int \<Rightarrow> string \<Rightarrow> (int \<times> diagnostic list) option" where
  "handlePaError err stage =
     (if err \<noteq> paNoError then Some (1, [PortAudioError stage err]) else None)"

text \<open>\<^verbatim>\<open>main\<close>: the exit code of the process and the lines on \<^verbatim>\<open>stderr\<close>.\<close>

definition main :: "Env \<Rightarrow> int \<times> diagnostic list" where
  "main env =
     (let data = initData in
      (case handlePaError (Pa_Initialize env) ''Initialization'' of Some ex \<Rightarrow> ex | None \<Rightarrow>
      (if Pa_GetDefaultInputDevice env = paNoDevice then (1, [NoDefaultInputDevice]) else
      (case handlePaError (Pa_OpenStream env) ''Stream Opening'' of Some ex \<Rightarrow> ex | None \<Rightarrow>
      (case handlePaError (Pa_StartStream env) ''Stream Starting'' of Some ex \<Rightarrow> ex | None \<Rightarrow>
      (let data = capture (delivered_early env) (delivered_late env) data in
      (case handlePaError (Pa_StopStream env) ''Stream Stopping'' of Some ex \<Rightarrow> ex | None \<Rightarrow>
      (case handlePaError (Pa_CloseStream env) ''Stream Closing'' of Some ex \<Rightarrow> ex | None \<Rightarrow>
      (if \<not> sf_open env then (1, [ErrorOpeningOutputFile]) else
      (let frames_written = sf_write_float env;
           err = (if frames_written \<noteq> vsize (recordedSamples data)
                  then [ErrorWritingSamples (vsize (recordedSamples data)) frames_written]
                  else [])
       in (if sf_close env \<noteq> 0 then (1, err @ [ErrorClosingOutputFile])
           else (0, err))))))))))))"

section \<open>The callback when allocation can fail\<close>

text \<open>
  \<^verbatim>\<open>push_back\<close> needs no memory while the size is below the capacity. At the capacity it
  asks the allocator for a block of \<open>size + max size 1\<close> elements and throws
  \<^verbatim>\<open>std::bad_alloc\<close> when the allocator has none; the vector is then left as it was.
  \<open>avail\<close> is the largest block, in elements, that the allocator provides; it is below
  \<^verbatim>\<open>max_size()\<close>, which is \<open>2^61 - 1\<close> for \<^verbatim>\<open>float\<close> on LP64.

  The loops and the callback are those of lines 31 to 55 again. An exception leaves the
  loop and the callback at once: the result is the exception and the state as it is then.
\<close>

datatype exception = bad_alloc

definition push_back_mem :: "nat \<Rightarrow> vector \<Rightarrow> sample \<Rightarrow> exception + vector" where
  "push_back_mem avail v x =
     (if length (elems v) < capacity v then Inr (push_back v x)
      else if length (elems v) + max (length (elems v)) 1 \<le> avail then Inr (push_back v x)
      else Inl bad_alloc)"

function zeroLoopMem :: "nat \<Rightarrow> ulong \<Rightarrow> ulong \<Rightarrow> vector \<Rightarrow> exception option \<times> vector" where
  "zeroLoopMem avail i n v =
     (if i < n
      then (case push_back_mem avail v 0 of
              Inl e \<Rightarrow> (Some e, v)
            | Inr v' \<Rightarrow> zeroLoopMem avail (i + 1) n v')
      else (None, v))"
  by pat_completeness auto
termination
proof (relation "measure (\<lambda>(avail, i, n, v). unat n - unat i)")
  show "wf (measure (\<lambda>(avail, i, n, v). unat n - unat i))"
    by simp
next
  fix avail :: nat and i n :: ulong and v v' :: vector
  assume "i < n"
  then have "unat n - unat (i + 1) < unat n - unat i"
    by unat_arith
  then show "((avail, i + 1, n, v'), (avail, i, n, v)) \<in> measure (\<lambda>(avail, i, n, v). unat n - unat i)"
    by simp
qed

function copyLoopMem ::
  "nat \<Rightarrow> ulong \<Rightarrow> ulong \<Rightarrow> (nat \<Rightarrow> sample) \<Rightarrow> nat \<Rightarrow> vector \<Rightarrow> exception option \<times> vector"
where
  "copyLoopMem avail i n buf rptr v =
     (if i < n
      then (case push_back_mem avail v (buf rptr) of
              Inl e \<Rightarrow> (Some e, v)
            | Inr v' \<Rightarrow> copyLoopMem avail (i + 1) n buf (Suc rptr) v')
      else (None, v))"
  by pat_completeness auto
termination
proof (relation "measure (\<lambda>(avail, i, n, buf, rptr, v). unat n - unat i)")
  show "wf (measure (\<lambda>(avail, i, n, buf, rptr, v). unat n - unat i))"
    by simp
next
  fix avail :: nat and i n :: ulong and buf :: "nat \<Rightarrow> sample" and rptr :: nat and v v' :: vector
  assume "i < n"
  then have "unat n - unat (i + 1) < unat n - unat i"
    by unat_arith
  then show "((avail, i + 1, n, buf, Suc rptr, v'), (avail, i, n, buf, rptr, v))
      \<in> measure (\<lambda>(avail, i, n, buf, rptr, v). unat n - unat i)"
    by simp
qed

definition recordCallbackMem ::
  "nat \<Rightarrow> (nat \<Rightarrow> sample) option \<Rightarrow> ulong \<Rightarrow> RecordData \<Rightarrow>
   (exception + PaStreamCallbackResult) \<times> RecordData"
where
  "recordCallbackMem avail inputBuffer framesPerBuffer d =
     (let n = framesToRecord framesPerBuffer d;
          d1 = (if limitHit framesPerBuffer d then d\<lparr>recording := False\<rparr> else d);
          (thrown, v) = (case inputBuffer of
                  None \<Rightarrow> zeroLoopMem avail 0 n (recordedSamples d1)
                | Some buf \<Rightarrow> copyLoopMem avail 0 n buf 0 (recordedSamples d1));
          d2 = d1\<lparr>recordedSamples := v\<rparr>
      in (case thrown of
            Some e \<Rightarrow> (Inl e, d2)
          | None \<Rightarrow> (Inr (if recording d2 then paContinue else paComplete), d2)))"

section \<open>Notions used in the statements\<close>

text \<open>The recorded samples, in the order they were recorded.\<close>

abbreviation samples :: "RecordData \<Rightarrow> sample list" where
  "samples d \<equiv> elems (recordedSamples d)"

text \<open>
  What one invocation appends when it records \<open>k\<close> frames: \<open>k\<close> zero samples for an absent
  input buffer, the first \<open>k\<close> samples of the input, in their order, otherwise.
\<close>

definition appended :: "(nat \<Rightarrow> sample) option \<Rightarrow> nat \<Rightarrow> sample list" where
  "appended inputBuffer k = (case inputBuffer of None \<Rightarrow> replicate k 0 | Some buf \<Rightarrow> map buf [0 ..< k])"

text \<open>A run of the transport as \<^verbatim>\<open>main\<close> opens it: every buffer has \<^verbatim>\<open>FRAMES_PER_BUFFER\<close> frames.\<close>

definition deliveries :: "(nat \<Rightarrow> sample) option list \<Rightarrow> event list" where
  "deliveries inps = map (\<lambda>inputBuffer. Invoke inputBuffer FRAMES_PER_BUFFER) inps"

text \<open>
  The state of a capture with a limit: the buffer is within the limit and the limit is
  within the capacity reserved for it.
\<close>

definition inBounds :: "RecordData \<Rightarrow> bool" where
  "inBounds d \<longleftrightarrow>
     0 < maxSamples d \<and>
     length (elems (recordedSamples d)) \<le> unat (maxSamples d) \<and>
     unat (maxSamples d) \<le> capacity (recordedSamples d)"

text \<open>
  What \<^verbatim>\<open>main\<close> has captured when it writes the file, and the runs of \<^verbatim>\<open>main\<close> in which
  every PortAudio call succeeds and there is an input device.
\<close>

definition captured :: "Env \<Rightarrow> RecordData" where
  "captured env = capture (delivered_early env) (delivered_late env) initData"

definition streamRan :: "Env \<Rightarrow> bool" where
  "streamRan env \<longleftrightarrow>
     Pa_Initialize env = paNoError \<and> Pa_GetDefaultInputDevice env \<noteq> paNoDevice \<and>
     Pa_OpenStream env = paNoError \<and> Pa_StartStream env = paNoError \<and>
     Pa_StopStream env = paNoError \<and> Pa_CloseStream env = paNoError"

subsection \<open>Concrete states and environments\<close>

text \<open>
  States that the callback reaches from the state \<^verbatim>\<open>main\<close> sets up: after one buffer of
  512 frames, after one buffer of 219988 frames (512 short of the limit), and after one buffer
  of exactly 220500 frames.
\<close>

definition oneBuffer :: RecordData where
  "oneBuffer = snd (recordCallback None 512 initData)"

definition nearlyFull :: RecordData where
  "nearlyFull = snd (recordCallback None 219988 initData)"

definition exactlyFull :: RecordData where
  "exactlyFull = snd (recordCallback None 220500 initData)"

text \<open>
  A run of \<^verbatim>\<open>main\<close> in which every call succeeds, one buffer is delivered before the
  timer ends, and all 512 samples are written.
\<close>

definition okEnv :: Env where
  "okEnv = \<lparr>Pa_Initialize = 0, Pa_GetDefaultInputDevice = 0, Pa_OpenStream = 0,
     Pa_StartStream = 0, delivered_early = [None], delivered_late = [],
     Pa_StopStream = 0, Pa_CloseStream = 0, sf_open = True, sf_write_float = 512,
     sf_close = 0\<rparr>"

section \<open>The loops and the vector\<close>

declare zeroLoop.simps [simp del] copyLoop.simps [simp del]

lemma elems_push_back: "elems (push_back v x) = elems v @ [x]"
  by (simp add: push_back_def)

lemma push_back_room:
  "length (elems v) < capacity v \<Longrightarrow> push_back v x = v\<lparr>elems := elems v @ [x]\<rparr>"
  by (simp add: push_back_def)

lemma reallocs_push_back:
  "reallocs (push_back v x) = reallocs v \<longleftrightarrow> length (elems v) < capacity v"
  by (simp add: push_back_def)

lemma unat_inc: "(i::ulong) < n \<Longrightarrow> unat (i + 1) = Suc (unat i)"
  by unat_arith

lemma elems_zeroLoop: "elems (zeroLoop i n v) = elems v @ replicate (unat n - unat i) 0"
proof (induction i n v rule: zeroLoop.induct)
  case (1 i n v)
  show ?case
  proof (cases "i < n")
    case True
    then have "unat n - unat i = Suc (unat n - unat (i + 1))"
      by unat_arith
    with True 1 show ?thesis
      by (subst zeroLoop.simps) (simp add: elems_push_back replicate_append_same)
  next
    case False
    then have "unat n - unat i = 0"
      by unat_arith
    with False show ?thesis
      by (subst zeroLoop.simps) simp
  qed
qed

lemma elems_copyLoop:
  "elems (copyLoop i n buf rptr v) = elems v @ map buf [rptr ..< rptr + (unat n - unat i)]"
proof (induction i n buf rptr v rule: copyLoop.induct)
  case (1 i n buf rptr v)
  show ?case
  proof (cases "i < n")
    case True
    then have "unat n - unat i = Suc (unat n - unat (i + 1))"
      by unat_arith
    have "[rptr ..< rptr + Suc (unat n - unat (i + 1))] =
        rptr # [Suc rptr ..< Suc rptr + (unat n - unat (i + 1))]"
      by (simp add: upt_conv_Cons del: upt_Suc)
    then have cons: "map buf [rptr ..< rptr + (unat n - unat i)] =
        buf rptr # map buf [Suc rptr ..< Suc rptr + (unat n - unat (i + 1))]"
      by (simp only: \<open>unat n - unat i = Suc (unat n - unat (i + 1))\<close> list.map)
    have "elems (copyLoop i n buf rptr v) =
        elems (copyLoop (i + 1) n buf (Suc rptr) (push_back v (buf rptr)))"
      using True by (subst copyLoop.simps) simp
    also have "\<dots> = elems (push_back v (buf rptr)) @
        map buf [Suc rptr ..< Suc rptr + (unat n - unat (i + 1))]"
      using True by (rule 1)
    finally show ?thesis
      by (simp only: cons elems_push_back append_Cons append_Nil append_assoc)
  next
    case False
    then have "unat n - unat i = 0"
      by unat_arith
    with False show ?thesis
      by (subst copyLoop.simps) simp
  qed
qed

lemma zeroLoop_room:
  "length (elems v) + (unat n - unat i) \<le> capacity v \<Longrightarrow>
   zeroLoop i n v = v\<lparr>elems := elems v @ replicate (unat n - unat i) 0\<rparr>"
proof (induction i n v rule: zeroLoop.induct)
  case (1 i n v)
  show ?case
  proof (cases "i < n")
    case True
    then have eq: "unat n - unat i = Suc (unat n - unat (i + 1))"
      by unat_arith
    with "1.prems" have room: "length (elems v) < capacity v"
      by simp
    have "zeroLoop (i + 1) n (push_back v 0) =
        (push_back v 0)\<lparr>elems := elems (push_back v 0) @ replicate (unat n - unat (i + 1)) 0\<rparr>"
      using True "1.prems" eq room by (intro "1.IH") (simp_all add: push_back_room)
    with True eq room show ?thesis
      by (subst zeroLoop.simps) (simp add: push_back_room replicate_append_same)
  next
    case False
    then have "unat n - unat i = 0"
      by unat_arith
    with False show ?thesis
      by (subst zeroLoop.simps) simp
  qed
qed

lemma copyLoop_room:
  "length (elems v) + (unat n - unat i) \<le> capacity v \<Longrightarrow>
   copyLoop i n buf rptr v = v\<lparr>elems := elems v @ map buf [rptr ..< rptr + (unat n - unat i)]\<rparr>"
proof (induction i n buf rptr v rule: copyLoop.induct)
  case (1 i n buf rptr v)
  show ?case
  proof (cases "i < n")
    case True
    then have eq: "unat n - unat i = Suc (unat n - unat (i + 1))"
      by unat_arith
    with "1.prems" have room: "length (elems v) < capacity v"
      by simp
    have "[rptr ..< rptr + Suc (unat n - unat (i + 1))] =
        rptr # [Suc rptr ..< Suc rptr + (unat n - unat (i + 1))]"
      by (simp add: upt_conv_Cons del: upt_Suc)
    then have cons: "map buf [rptr ..< rptr + (unat n - unat i)] =
        buf rptr # map buf [Suc rptr ..< Suc rptr + (unat n - unat (i + 1))]"
      by (simp only: eq list.map)
    have "copyLoop i n buf rptr v =
        copyLoop (i + 1) n buf (Suc rptr) (push_back v (buf rptr))"
      using True by (subst copyLoop.simps) simp
    also have "\<dots> = (push_back v (buf rptr))\<lparr>elems := elems (push_back v (buf rptr)) @
           map buf [Suc rptr ..< Suc rptr + (unat n - unat (i + 1))]\<rparr>"
      using True "1.prems" eq room by (intro "1.IH") (simp_all add: push_back_room)
    also have "\<dots> = v\<lparr>elems := elems v @ map buf [rptr ..< rptr + (unat n - unat i)]\<rparr>"
      using room by (simp add: push_back_room cons del: upt_Suc)
    finally show ?thesis .
  next
    case False
    then have "unat n - unat i = 0"
      by unat_arith
    with False show ?thesis
      by (subst copyLoop.simps) simp
  qed
qed

section \<open>One invocation of the callback\<close>

lemma length_appended: "length (appended inp k) = k"
  by (simp add: appended_def split: option.split)

lemma recordCallback_result:
  "fst (recordCallback inp n d) = (if recording d \<and> \<not> limitHit n d then paContinue else paComplete)"
  by (simp add: recordCallback_def Let_def split: option.split)

lemma recordCallback_recording:
  "recording (snd (recordCallback inp n d)) \<longleftrightarrow> recording d \<and> \<not> limitHit n d"
  by (simp add: recordCallback_def Let_def split: option.split)

lemma recordCallback_maxSamples:
  "maxSamples (snd (recordCallback inp n d)) = maxSamples d"
  by (simp add: recordCallback_def Let_def split: option.split)

lemma recordCallback_elems:
  "elems (recordedSamples (snd (recordCallback inp n d))) =
     elems (recordedSamples d) @ appended inp (unat (framesToRecord n d))"
  by (simp add: recordCallback_def Let_def appended_def elems_zeroLoop elems_copyLoop
      split: option.split)

lemma recordCallback_room:
  assumes "length (elems (recordedSamples d)) + unat (framesToRecord n d) \<le> capacity (recordedSamples d)"
  shows "recordedSamples (snd (recordCallback inp n d)) =
     (recordedSamples d)\<lparr>elems := elems (recordedSamples d) @ appended inp (unat (framesToRecord n d))\<rparr>"
  using assms
  by (simp add: recordCallback_def Let_def appended_def zeroLoop_room copyLoop_room
      split: option.split)

lemma unat_vsize:
  "length (elems v) \<le> unat (m :: size_t) \<Longrightarrow> unat (vsize v) = length (elems v)"
  unfolding vsize_def by (metis le_unat_uoi)

lemma limitHit_nat:
  assumes "length (elems (recordedSamples d)) \<le> unat (maxSamples d)"
    and "unat (maxSamples d) + unat n < 2 ^ 64"
  shows "limitHit n d \<longleftrightarrow>
     unat (maxSamples d) < length (elems (recordedSamples d)) + unat n \<and> 0 < maxSamples d"
proof -
  have "unat (vsize (recordedSamples d)) = length (elems (recordedSamples d))"
    using assms(1) by (rule unat_vsize)
  moreover have "unat (vsize (recordedSamples d) + n) = unat (vsize (recordedSamples d)) + unat n"
    using assms calculation by (simp add: unat_add_lem [THEN iffD1])
  ultimately show ?thesis
    by (simp add: limitHit_def word_less_nat_alt)
qed

lemma framesToRecord_limit:
  assumes "length (elems (recordedSamples d)) \<le> unat (maxSamples d)" and "limitHit n d"
  shows "unat (framesToRecord n d) = unat (maxSamples d) - length (elems (recordedSamples d))"
proof -
  have len: "unat (vsize (recordedSamples d)) = length (elems (recordedSamples d))"
    using assms(1) by (rule unat_vsize)
  then have "vsize (recordedSamples d) \<le> maxSamples d"
    using assms(1) by (simp add: word_le_nat_alt)
  then have "unat (maxSamples d - vsize (recordedSamples d)) =
      unat (maxSamples d) - unat (vsize (recordedSamples d))"
    by (rule unat_sub)
  with len assms(2) show ?thesis
    by (simp add: framesToRecord_def)
qed


lemma maxSamples_initData: "maxSamples initData = 220500"
  by (simp add: initData_def defaultData_def Let_def NUM_SECONDS_def SAMPLE_RATE_def NUM_CHANNELS_def)

lemma recordedSamples_initData:
  "recordedSamples initData = \<lparr>elems = [], capacity = 220500, reallocs = 1\<rparr>"
  by (simp add: initData_def defaultData_def Let_def NUM_SECONDS_def SAMPLE_RATE_def NUM_CHANNELS_def
      reserve_def empty_vector_def)

lemma recording_initData: "recording initData"
  by (simp add: initData_def defaultData_def Let_def)

section \<open>Invocations that do not wrap the test of line 36\<close>

lemma inBounds_initData: "inBounds initData"
  by (simp add: inBounds_def maxSamples_initData recordedSamples_initData)

lemma framesToRecord_fits:
  assumes "inBounds d" and "unat (maxSamples d) + unat n < 2 ^ 64"
  shows "length (elems (recordedSamples d)) + unat (framesToRecord n d) \<le> unat (maxSamples d)"
proof (cases "limitHit n d")
  case True
  with assms show ?thesis
    by (simp add: inBounds_def framesToRecord_limit)
next
  case False
  with assms have "\<not> unat (maxSamples d) < length (elems (recordedSamples d)) + unat n"
    by (simp add: inBounds_def limitHit_nat)
  with False show ?thesis
    by (simp add: framesToRecord_def)
qed

lemma recordCallback_inBounds:
  assumes "inBounds d" and "unat (maxSamples d) + unat n < 2 ^ 64"
  shows "inBounds (snd (recordCallback inp n d))"
    and "capacity (recordedSamples (snd (recordCallback inp n d))) = capacity (recordedSamples d)"
    and "reallocs (recordedSamples (snd (recordCallback inp n d))) = reallocs (recordedSamples d)"
proof -
  have fits: "length (elems (recordedSamples d)) + unat (framesToRecord n d) \<le> unat (maxSamples d)"
    using assms by (rule framesToRecord_fits)
  with assms(1) have
    "length (elems (recordedSamples d)) + unat (framesToRecord n d) \<le> capacity (recordedSamples d)"
    by (simp add: inBounds_def)
  then have eq: "recordedSamples (snd (recordCallback inp n d)) =
      (recordedSamples d)\<lparr>elems := elems (recordedSamples d) @ appended inp (unat (framesToRecord n d))\<rparr>"
    by (rule recordCallback_room)
  show "inBounds (snd (recordCallback inp n d))"
    using assms(1) fits by (simp add: inBounds_def eq recordCallback_maxSamples length_appended)
  show "capacity (recordedSamples (snd (recordCallback inp n d))) = capacity (recordedSamples d)"
    by (simp add: eq)
  show "reallocs (recordedSamples (snd (recordCallback inp n d))) = reallocs (recordedSamples d)"
    by (simp add: eq)
qed

lemma FRAMES_PER_BUFFER_fits:
  "maxSamples d = 220500 \<Longrightarrow> unat (maxSamples d) + unat FRAMES_PER_BUFFER < 2 ^ 64"
  by (simp add: FRAMES_PER_BUFFER_def)

lemma transport_inBounds:
  "inBounds d \<Longrightarrow> maxSamples d = 220500 \<Longrightarrow>
   inBounds (snd (transport active inps d)) \<and>
   maxSamples (snd (transport active inps d)) = 220500 \<and>
   capacity (recordedSamples (snd (transport active inps d))) = capacity (recordedSamples d) \<and>
   reallocs (recordedSamples (snd (transport active inps d))) = reallocs (recordedSamples d)"
proof (induction inps arbitrary: active d)
  case Nil
  then show ?case by simp
next
  case (Cons inp inps)
  show ?case
  proof (cases active)
    case False
    with Cons.prems show ?thesis by simp
  next
    case True
    let ?d' = "snd (recordCallback inp FRAMES_PER_BUFFER d)"
    have fits: "unat (maxSamples d) + unat FRAMES_PER_BUFFER < 2 ^ 64"
      using Cons.prems(2) by (rule FRAMES_PER_BUFFER_fits)
    have d': "inBounds ?d'" "maxSamples ?d' = 220500"
      "capacity (recordedSamples ?d') = capacity (recordedSamples d)"
      "reallocs (recordedSamples ?d') = reallocs (recordedSamples d)"
      using Cons.prems fits by (simp_all add: recordCallback_inBounds recordCallback_maxSamples)
    from Cons.IH [OF d'(1,2)] d'(3,4) True show ?thesis
      by (simp add: split_beta)
  qed
qed

lemma capture_no_realloc:
  "reallocs (recordedSamples (capture early late initData)) = reallocs (recordedSamples initData) \<and>
   capacity (recordedSamples (capture early late initData)) = capacity (recordedSamples initData) \<and>
   length (elems (recordedSamples (capture early late initData))) \<le> capacity (recordedSamples initData)"
proof -
  let ?d1 = "snd (transport True early initData)"
  let ?d2 = "?d1\<lparr>recording := False\<rparr>"
  have d1: "inBounds ?d1" "maxSamples ?d1 = 220500"
    "capacity (recordedSamples ?d1) = capacity (recordedSamples initData)"
    "reallocs (recordedSamples ?d1) = reallocs (recordedSamples initData)"
    using transport_inBounds [OF inBounds_initData maxSamples_initData, of True early] by simp_all
  then have d2: "inBounds ?d2" "maxSamples ?d2 = 220500"
    by (simp_all add: inBounds_def)
  let ?d3 = "snd (transport (fst (transport True early initData)) late ?d2)"
  have d3: "inBounds ?d3"
    "capacity (recordedSamples ?d3) = capacity (recordedSamples ?d2)"
    "reallocs (recordedSamples ?d3) = reallocs (recordedSamples ?d2)"
    using transport_inBounds [OF d2] by simp_all
  have "capture early late initData = ?d3"
    by (simp add: capture_def split_beta)
  with d1 d3 show ?thesis
    by (simp add: inBounds_def recordedSamples_initData)
qed

lemma run_inBounds:
  "inBounds d \<Longrightarrow> \<forall>e \<in> set es. \<forall>inp n. e = Invoke inp n \<longrightarrow> unat (maxSamples d) + unat n < 2 ^ 64 \<Longrightarrow>
   inBounds (run es d) \<and> maxSamples (run es d) = maxSamples d \<and>
   capacity (recordedSamples (run es d)) = capacity (recordedSamples d) \<and>
   reallocs (recordedSamples (run es d)) = reallocs (recordedSamples d)"
proof (induction es arbitrary: d)
  case Nil
  then show ?case by simp
next
  case (Cons e es)
  have step: "inBounds (exec e d) \<and> maxSamples (exec e d) = maxSamples d \<and>
      capacity (recordedSamples (exec e d)) = capacity (recordedSamples d) \<and>
      reallocs (recordedSamples (exec e d)) = reallocs (recordedSamples d)"
  proof (cases e)
    case (Invoke inp n)
    with Cons.prems have "unat (maxSamples d) + unat n < 2 ^ 64"
      by simp
    with Cons.prems(1) Invoke show ?thesis
      by (simp add: recordCallback_inBounds recordCallback_maxSamples)
  next
    case StopSignal
    with Cons.prems(1) show ?thesis
      by (simp add: inBounds_def)
  qed
  with Cons.prems(2) have "inBounds (run es (exec e d)) \<and>
      maxSamples (run es (exec e d)) = maxSamples (exec e d) \<and>
      capacity (recordedSamples (run es (exec e d))) = capacity (recordedSamples (exec e d)) \<and>
      reallocs (recordedSamples (run es (exec e d))) = reallocs (recordedSamples (exec e d))"
    by (intro Cons.IH) simp_all
  with step show ?case
    by simp
qed

text \<open>From the state \<^verbatim>\<open>main\<close> sets up, such runs keep the buffer within 220500 samples.\<close>

lemma buffer_within_limit:
  assumes "\<forall>e \<in> set es. \<forall>inp n. e = Invoke inp n \<longrightarrow> unat n < 2 ^ 64 - 220500"
  shows "length (samples (run es initData)) \<le> 220500"
proof -
  from assms have "\<forall>e \<in> set es. \<forall>inp n. e = Invoke inp n \<longrightarrow>
      unat (maxSamples initData) + unat n < 2 ^ 64"
    by (simp add: maxSamples_initData)
  with inBounds_initData have "inBounds (run es initData) \<and>
      maxSamples (run es initData) = maxSamples initData"
    by (simp add: run_inBounds)
  then have "length (samples (run es initData)) \<le> unat (maxSamples initData)"
    by (auto simp add: inBounds_def)
  then show ?thesis
    by (simp add: maxSamples_initData)
qed

section \<open>Full buffers\<close>

lemma full_buffer_step:
  assumes "inBounds d" and "maxSamples d = 220500" and "recording d"
    and "length (samples d) + 512 \<le> 220500"
  shows "fst (recordCallback inp FRAMES_PER_BUFFER d) = paContinue"
    and "recording (snd (recordCallback inp FRAMES_PER_BUFFER d))"
    and "length (samples (snd (recordCallback inp FRAMES_PER_BUFFER d))) = length (samples d) + 512"
    and "inBounds (snd (recordCallback inp FRAMES_PER_BUFFER d))"
proof -
  have fits: "unat (maxSamples d) + unat FRAMES_PER_BUFFER < 2 ^ 64"
    using assms(2) by (rule FRAMES_PER_BUFFER_fits)
  have no: "\<not> limitHit FRAMES_PER_BUFFER d"
    using assms limitHit_nat [of d FRAMES_PER_BUFFER] fits
    by (simp add: inBounds_def FRAMES_PER_BUFFER_def)
  then have n: "unat (framesToRecord FRAMES_PER_BUFFER d) = 512"
    by (simp add: framesToRecord_def FRAMES_PER_BUFFER_def)
  show "fst (recordCallback inp FRAMES_PER_BUFFER d) = paContinue"
    using no assms(3) by (simp add: recordCallback_result)
  show "recording (snd (recordCallback inp FRAMES_PER_BUFFER d))"
    using no assms(3) by (simp add: recordCallback_recording)
  show "length (samples (snd (recordCallback inp FRAMES_PER_BUFFER d))) = length (samples d) + 512"
    by (simp add: recordCallback_elems length_appended n)
  show "inBounds (snd (recordCallback inp FRAMES_PER_BUFFER d))"
    using assms(1) fits by (rule recordCallback_inBounds)
qed

lemma full_buffers_run:
  "inBounds d \<Longrightarrow> maxSamples d = 220500 \<Longrightarrow> recording d \<Longrightarrow>
   length (samples d) + 512 * length inps \<le> 220500 \<Longrightarrow>
   inBounds (run (deliveries inps) d) \<and> maxSamples (run (deliveries inps) d) = 220500 \<and>
   recording (run (deliveries inps) d) \<and>
   length (samples (run (deliveries inps) d)) = length (samples d) + 512 * length inps \<and>
   transport True inps d = (True, run (deliveries inps) d)"
proof (induction inps arbitrary: d)
  case Nil
  then show ?case by (simp add: deliveries_def)
next
  case (Cons inp inps)
  let ?d' = "snd (recordCallback inp FRAMES_PER_BUFFER d)"
  from Cons.prems have room: "length (samples d) + 512 \<le> 220500"
    by simp
  note step = full_buffer_step [OF Cons.prems(1,2,3) room, of inp]
  have max': "maxSamples ?d' = 220500"
    using Cons.prems(2) by (simp add: recordCallback_maxSamples)
  have "length (samples ?d') + 512 * length inps \<le> 220500"
    using Cons.prems(4) step(3) by simp
  from Cons.IH [OF step(4) max' step(2) this] step(1,3) show ?case
    by (simp add: deliveries_def split_beta)
qed

lemma run_append: "run (es @ es') d = run es' (run es d)"
  by (induction es arbitrary: d) simp_all

lemma transport_append:
  "transport active (xs @ ys) d = transport (fst (transport active xs d)) ys (snd (transport active xs d))"
proof (induction xs arbitrary: active d)
  case Nil
  then show ?case by simp
next
  case (Cons x xs)
  then show ?case
    by (cases active; cases ys) (simp_all add: split_beta)
qed

section \<open>The limit reached in the middle of a buffer\<close>

text \<open>
  When the frames delivered do not fit below the limit, and the sum of line 36 does not wrap,
  the callback records exactly the headroom, clears the flag and returns \<^verbatim>\<open>paComplete\<close>.
\<close>

lemma limit_hit_mid_buffer:
  assumes "length (samples d) \<le> unat (maxSamples d)" and "0 < maxSamples d"
    and "unat (maxSamples d) < length (samples d) + unat n"
    and "unat (maxSamples d) + unat n < 2 ^ 64"
  shows "samples (snd (recordCallback inp n d)) =
      samples d @ appended inp (unat (maxSamples d) - length (samples d))"
    and "length (samples (snd (recordCallback inp n d))) = unat (maxSamples d)"
    and "\<not> recording (snd (recordCallback inp n d))"
    and "fst (recordCallback inp n d) = paComplete"
proof -
  have hit: "limitHit n d"
    using assms by (simp add: limitHit_nat)
  then have n: "unat (framesToRecord n d) = unat (maxSamples d) - length (samples d)"
    using assms(1) by (simp add: framesToRecord_limit)
  show "samples (snd (recordCallback inp n d)) =
      samples d @ appended inp (unat (maxSamples d) - length (samples d))"
    by (simp add: recordCallback_elems n)
  then show "length (samples (snd (recordCallback inp n d))) = unat (maxSamples d)"
    using assms(1) by (simp add: length_appended)
  show "\<not> recording (snd (recordCallback inp n d))"
    using hit by (simp add: recordCallback_recording)
  show "fst (recordCallback inp n d) = paComplete"
    using hit by (simp add: recordCallback_result)
qed

section \<open>Prefixes and the flag along a run\<close>

lemma prefix_run: "prefix (samples d) (samples (run es d))"
proof (induction es arbitrary: d)
  case Nil
  show ?case by simp
next
  case (Cons e es)
  have "prefix (samples d) (samples (exec e d))"
    by (cases e) (simp_all add: recordCallback_elems)
  also have "prefix (samples (exec e d)) (samples (run es (exec e d)))"
    by (rule Cons.IH)
  finally show ?case by simp
qed



section \<open>\<^verbatim>\<open>main\<close>\<close>

lemma main_streamRan:
  "streamRan env \<Longrightarrow> main env =
     (if \<not> sf_open env then (1, [ErrorOpeningOutputFile])
      else (if sf_close env \<noteq> 0 then 1 else 0,
            (if sf_write_float env \<noteq> vsize (recordedSamples (captured env))
             then [ErrorWritingSamples (vsize (recordedSamples (captured env))) (sf_write_float env)]
             else []) @
            (if sf_close env \<noteq> 0 then [ErrorClosingOutputFile] else [])))"
  by (simp add: main_def streamRan_def handlePaError_def captured_def Let_def)

lemma main_exit_code: "fst (main env) = 0 \<or> fst (main env) = 1"
  by (simp add: main_def handlePaError_def Let_def)

lemma main_exit_0:
  "fst (main env) = 0 \<longleftrightarrow> streamRan env \<and> sf_open env \<and> sf_close env = 0"
  by (auto simp add: main_def streamRan_def handlePaError_def Let_def)

lemma captured_okEnv: "vsize (recordedSamples (captured okEnv)) = 512"
  by (simp add: captured_def okEnv_def capture_def split_beta FRAMES_PER_BUFFER_def
      recordCallback_elems recordCallback_result recordCallback_recording
      recordCallback_maxSamples limitHit_def framesToRecord_def vsize_def length_appended
      maxSamples_initData recordedSamples_initData recording_initData)

section \<open>Evaluation at concrete states\<close>

lemmas eval_simps = recordCallback_elems recordCallback_result recordCallback_recording
  recordCallback_maxSamples limitHit_def framesToRecord_def vsize_def length_appended
  maxSamples_initData recordedSamples_initData recording_initData

section \<open>Allocation failure\<close>

text \<open>
  While the vector has room the loops allocate nothing: they cannot throw, and they do what
  the loops without allocation failure do.
\<close>

declare zeroLoopMem.simps [simp del] copyLoopMem.simps [simp del]

lemma zeroLoopMem_room:
  "length (elems v) + (unat n - unat i) \<le> capacity v \<Longrightarrow>
   zeroLoopMem avail i n v = (None, zeroLoop i n v)"
proof (induction avail i n v rule: zeroLoopMem.induct)
  case (1 avail i n v)
  show ?case
  proof (cases "i < n")
    case True
    then have eq: "unat n - unat i = Suc (unat n - unat (i + 1))"
      by unat_arith
    with "1.prems" have room: "length (elems v) < capacity v"
      by simp
    then have push: "push_back_mem avail v 0 = Inr (push_back v 0)"
      by (simp add: push_back_mem_def)
    have "zeroLoopMem avail (i + 1) n (push_back v 0) = (None, zeroLoop (i + 1) n (push_back v 0))"
      using True push "1.prems" eq room by (intro "1.IH") (simp_all add: push_back_room)
    with True push show ?thesis
      by (subst zeroLoopMem.simps, subst zeroLoop.simps) simp
  next
    case False
    then show ?thesis
      by (subst zeroLoopMem.simps, subst zeroLoop.simps) simp
  qed
qed

lemma copyLoopMem_room:
  "length (elems v) + (unat n - unat i) \<le> capacity v \<Longrightarrow>
   copyLoopMem avail i n buf rptr v = (None, copyLoop i n buf rptr v)"
proof (induction avail i n buf rptr v rule: copyLoopMem.induct)
  case (1 avail i n buf rptr v)
  show ?case
  proof (cases "i < n")
    case True
    then have eq: "unat n - unat i = Suc (unat n - unat (i + 1))"
      by unat_arith
    with "1.prems" have room: "length (elems v) < capacity v"
      by simp
    then have push: "push_back_mem avail v (buf rptr) = Inr (push_back v (buf rptr))"
      by (simp add: push_back_mem_def)
    have "copyLoopMem avail (i + 1) n buf (Suc rptr) (push_back v (buf rptr)) =
        (None, copyLoop (i + 1) n buf (Suc rptr) (push_back v (buf rptr)))"
      using True push "1.prems" eq room by (intro "1.IH") (simp_all add: push_back_room)
    with True push show ?thesis
      by (subst copyLoopMem.simps, subst copyLoop.simps) simp
  next
    case False
    then show ?thesis
      by (subst copyLoopMem.simps, subst copyLoop.simps) simp
  qed
qed

lemma recordCallbackMem_room:
  assumes "length (samples d) + unat (framesToRecord n d) \<le> capacity (recordedSamples d)"
  shows "recordCallbackMem avail inp n d =
     (Inr (fst (recordCallback inp n d)), snd (recordCallback inp n d))"
  using assms
  by (simp add: recordCallbackMem_def recordCallback_def Let_def zeroLoopMem_room copyLoopMem_room
      split: option.split)

lemma zeroLoopMem_overrun:
  assumes "length (elems v) \<le> capacity v" and "0 < capacity v" and "capacity v \<le> avail"
    and "avail < length (elems v) + (unat n - unat i)"
  shows "fst (zeroLoopMem avail i n v) = Some bad_alloc \<and>
     length (elems (snd (zeroLoopMem avail i n v))) = capacity (snd (zeroLoopMem avail i n v)) \<and>
     avail < 2 * capacity (snd (zeroLoopMem avail i n v)) \<and>
     capacity v \<le> capacity (snd (zeroLoopMem avail i n v))"
  using assms
proof (induction avail i n v rule: zeroLoopMem.induct)
  case (1 avail i n v)
  from "1.prems" have more: "0 < unat n - unat i"
    by simp
  then have lt: "i < n"
    by (simp add: word_less_nat_alt)
  then have eq: "unat n - unat i = Suc (unat n - unat (i + 1))"
    by unat_arith
  show ?case
  proof (cases "length (elems v) < capacity v \<or> length (elems v) + max (length (elems v)) 1 \<le> avail")
    case False
    with "1.prems" have full: "length (elems v) = capacity v" and no: "avail < 2 * capacity v"
      by auto
    from False have "push_back_mem avail v 0 = Inl bad_alloc"
      by (auto simp add: push_back_mem_def)
    with lt have "zeroLoopMem avail i n v = (Some bad_alloc, v)"
      by (subst zeroLoopMem.simps) simp
    with full no show ?thesis
      by simp
  next
    case True
    then have push: "push_back_mem avail v 0 = Inr (push_back v 0)"
      by (auto simp add: push_back_mem_def)
    let ?v' = "push_back v 0"
    have v': "length (elems ?v') \<le> capacity ?v'" "0 < capacity ?v'" "capacity ?v' \<le> avail"
      "avail < length (elems ?v') + (unat n - unat (i + 1))" "capacity v \<le> capacity ?v'"
      using True "1.prems" eq by (auto simp add: push_back_def)
    note IH = "1.IH" [OF lt push v'(1-4)]
    have "zeroLoopMem avail i n v = zeroLoopMem avail (i + 1) n ?v'"
      using lt push by (subst zeroLoopMem.simps) simp
    with IH v'(5) show ?thesis
      by simp
  qed
qed

text \<open>Within the limit, and with a frame count that does not wrap, the callback cannot throw.\<close>

lemma recordCallbackMem_inBounds:
  assumes "inBounds d" and "unat (maxSamples d) + unat n < 2 ^ 64"
  shows "recordCallbackMem avail inp n d =
     (Inr (fst (recordCallback inp n d)), snd (recordCallback inp n d))"
proof -
  have "length (samples d) + unat (framesToRecord n d) \<le> unat (maxSamples d)"
    using assms by (rule framesToRecord_fits)
  with assms(1) have
    "length (samples d) + unat (framesToRecord n d) \<le> capacity (recordedSamples d)"
    by (simp add: inBounds_def)
  then show ?thesis
    by (rule recordCallbackMem_room)
qed

text \<open>
  The state after one buffer of 512 frames, and the invocation with \<open>2^64 - 512\<close> frames and
  no input in that state. The sum of line 36 wraps to 0, nothing is clamped, and the loop of
  lines 44 to 46 sets out to push \<open>2^64 - 512\<close> zeros. Whatever the allocator provides, from
  441000 elements (one reallocation of the reserved buffer) up to \<^verbatim>\<open>max_size()\<close>, the loop
  ends in \<^verbatim>\<open>std::bad_alloc\<close> with more than half of that in the buffer, and the flag is
  still true.
\<close>

lemma recordedSamples_oneBuffer:
  "recordedSamples oneBuffer = \<lparr>elems = replicate 512 0, capacity = 220500, reallocs = 1\<rparr>"
proof -
  have "length (samples initData) + unat (framesToRecord 512 initData) \<le> capacity (recordedSamples initData)"
    by (simp add: eval_simps)
  then have "recordedSamples (snd (recordCallback None 512 initData)) =
      (recordedSamples initData)\<lparr>elems := samples initData @ appended None (unat (framesToRecord 512 initData))\<rparr>"
    by (rule recordCallback_room)
  then show ?thesis
    by (simp add: oneBuffer_def appended_def eval_simps)
qed

lemma wrapping_call_throws:
  assumes "441000 \<le> avail" and "avail < 2 ^ 61 - 1"
  shows "fst (recordCallbackMem avail None 0xFFFFFFFFFFFFFE00 oneBuffer) = Inl bad_alloc"
    and "avail < 2 * length (samples (snd (recordCallbackMem avail None 0xFFFFFFFFFFFFFE00 oneBuffer)))"
    and "recording (snd (recordCallbackMem avail None 0xFFFFFFFFFFFFFE00 oneBuffer))"
    and "maxSamples (snd (recordCallbackMem avail None 0xFFFFFFFFFFFFFE00 oneBuffer)) = 220500"
proof -
  let ?n = "0xFFFFFFFFFFFFFE00 :: ulong"
  let ?v = "recordedSamples oneBuffer"
  let ?r = "zeroLoopMem avail 0 ?n ?v"
  have no: "\<not> limitHit ?n oneBuffer"
    by (simp add: oneBuffer_def eval_simps)
  then have n: "framesToRecord ?n oneBuffer = ?n"
    by (simp add: framesToRecord_def)
  have call: "recordCallbackMem avail None ?n oneBuffer =
      (case fst ?r of Some e \<Rightarrow> (Inl e, oneBuffer\<lparr>recordedSamples := snd ?r\<rparr>)
       | None \<Rightarrow> (Inr (if recording oneBuffer then paContinue else paComplete),
                   oneBuffer\<lparr>recordedSamples := snd ?r\<rparr>))"
    by (simp add: recordCallbackMem_def Let_def no n split_beta)
  have "length (elems ?v) \<le> capacity ?v" "0 < capacity ?v" "capacity ?v \<le> avail"
    "avail < length (elems ?v) + (unat ?n - unat (0 :: ulong))"
    using assms by (simp_all add: recordedSamples_oneBuffer)
  then have r: "fst ?r = Some bad_alloc" "length (elems (snd ?r)) = capacity (snd ?r)"
    "avail < 2 * capacity (snd ?r)"
    using zeroLoopMem_overrun [of ?v avail ?n 0] by simp_all
  show "fst (recordCallbackMem avail None ?n oneBuffer) = Inl bad_alloc"
    by (simp add: call r(1))
  show "avail < 2 * length (samples (snd (recordCallbackMem avail None ?n oneBuffer)))"
    using r by (simp add: call)
  have one: "recording oneBuffer" "maxSamples oneBuffer = 220500"
    by (simp_all add: oneBuffer_def eval_simps)
  show "recording (snd (recordCallbackMem avail None ?n oneBuffer))"
    by (simp add: call r(1) one)
  show "maxSamples (snd (recordCallbackMem avail None ?n oneBuffer)) = 220500"
    by (simp add: call r(1) one)
qed

section \<open>The claims\<close>

subsection \<open>C1: the bound on the buffer\<close>

text \<open>
  C1, as amended. Starting from the empty buffer with \<open>maxSamples = 220500\<close>, after any
  sequence of invocations and stop signals whose frame counts are all below
  \<open>2^64 - maxSamples\<close>, with any input buffers, present or absent, the buffer holds at most
  \<open>maxSamples\<close> samples.
\<close>

theorem buffer_bounded_without_wrap:
  assumes "\<forall>e \<in> set es. \<forall>inputBuffer framesPerBuffer.
      e = Invoke inputBuffer framesPerBuffer \<longrightarrow> unat framesPerBuffer < 2 ^ 64 - unat (maxSamples initData)"
  shows "samples initData = [] \<and> unat (maxSamples initData) = 220500 \<and>
    length (samples (run es initData)) \<le> unat (maxSamples initData)"
proof -
  from assms have "\<forall>e \<in> set es. \<forall>inp n. e = Invoke inp n \<longrightarrow> unat n < 2 ^ 64 - 220500"
    by (simp add: maxSamples_initData)
  then have "length (samples (run es initData)) \<le> 220500"
    by (rule buffer_within_limit)
  then show ?thesis
    by (simp add: maxSamples_initData recordedSamples_initData)
qed

text \<open>The theorem at a run of three invocations and a stop signal.\<close>

theorem buffer_bounded_without_wrap_witness:
  "unat (512 :: ulong) < 2 ^ 64 - unat (maxSamples initData) \<and>
   unat (220500 :: ulong) < 2 ^ 64 - unat (maxSamples initData) \<and>
   unat (7 :: ulong) < 2 ^ 64 - unat (maxSamples initData) \<and>
   length (samples (run [Invoke None 512, Invoke (Some (\<lambda>k. 1)) 220500, StopSignal, Invoke None 7]
     initData)) \<le> unat (maxSamples initData)"
  using buffer_bounded_without_wrap
    [of "[Invoke None 512, Invoke (Some (\<lambda>k. 1)) 220500, StopSignal, Invoke None 7]"]
  by (simp add: maxSamples_initData)

text \<open>
  The claim as first stated covers every \<open>framesPerBuffer\<close>. With an allocator that provides
  up to \<open>2^30\<close> elements, a first invocation with 512 frames returns \<^verbatim>\<open>paContinue\<close>, and a
  second one with \<open>2^64 - 512\<close> frames and no input ends in \<^verbatim>\<open>std::bad_alloc\<close>, leaving
  more than \<open>maxSamples\<close> samples in the buffer.
\<close>

theorem overrun_at_wrapping_frame_count:
  "recordCallbackMem (2 ^ 30) None 512 initData = (Inr paContinue, oneBuffer) \<and>
   fst (recordCallbackMem (2 ^ 30) None 0xFFFFFFFFFFFFFE00 oneBuffer) = Inl bad_alloc \<and>
   unat (maxSamples (snd (recordCallbackMem (2 ^ 30) None 0xFFFFFFFFFFFFFE00 oneBuffer))) <
     length (samples (snd (recordCallbackMem (2 ^ 30) None 0xFFFFFFFFFFFFFE00 oneBuffer)))"
proof -
  have "length (samples initData) + unat (framesToRecord 512 initData) \<le> capacity (recordedSamples initData)"
    by (simp add: eval_simps)
  then have "recordCallbackMem (2 ^ 30) None 512 initData =
      (Inr (fst (recordCallback None 512 initData)), snd (recordCallback None 512 initData))"
    by (rule recordCallbackMem_room)
  then have first: "recordCallbackMem (2 ^ 30) None 512 initData = (Inr paContinue, oneBuffer)"
    by (simp add: oneBuffer_def eval_simps)
  have "(441000 :: nat) \<le> 2 ^ 30" and "(2 :: nat) ^ 30 < 2 ^ 61 - 1"
    by simp_all
  note wrapping_call_throws [OF this]
  with first show ?thesis
    by simp
qed

subsection \<open>C2: when the callback continues\<close>




subsection \<open>C3: invocations on a full buffer\<close>

text \<open>
  C3, as amended. In a state whose buffer holds exactly \<open>maxSamples\<close> samples (with
  \<open>maxSamples > 0\<close>), an invocation with at least one frame, whose frame count does not wrap
  the sum of line 36, appends nothing, clears the flag and returns \<^verbatim>\<open>paComplete\<close>, for
  any input. An invocation with no frames appends nothing and leaves the flag as it is: it
  returns \<^verbatim>\<open>paContinue\<close> exactly when the flag is still true.
\<close>

theorem full_buffer_takes_no_more:
  assumes "length (samples d) = unat (maxSamples d)" and "0 < maxSamples d"
  shows "(0 < framesPerBuffer \<and> unat (maxSamples d) + unat framesPerBuffer < 2 ^ 64 \<longrightarrow>
            samples (snd (recordCallback inputBuffer framesPerBuffer d)) = samples d \<and>
            fst (recordCallback inputBuffer framesPerBuffer d) = paComplete \<and>
            \<not> recording (snd (recordCallback inputBuffer framesPerBuffer d))) \<and>
         samples (snd (recordCallback inputBuffer 0 d)) = samples d \<and>
         (fst (recordCallback inputBuffer 0 d) = paContinue \<longleftrightarrow> recording d)"
proof (intro conjI impI)
  assume n: "0 < framesPerBuffer \<and> unat (maxSamples d) + unat framesPerBuffer < 2 ^ 64"
  then have "0 < unat framesPerBuffer"
    by (simp add: word_less_nat_alt)
  with assms(1) have over: "unat (maxSamples d) < length (samples d) + unat framesPerBuffer"
    by simp
  from n have fits: "unat (maxSamples d) + unat framesPerBuffer < 2 ^ 64"
    by simp
  note hit = limit_hit_mid_buffer [OF _ assms(2) over fits, of inputBuffer]
  from hit(1) assms(1) show "samples (snd (recordCallback inputBuffer framesPerBuffer d)) = samples d"
    by (simp add: appended_def split: option.split)
  from hit(4) assms(1) show "fst (recordCallback inputBuffer framesPerBuffer d) = paComplete"
    by simp
  from hit(3) assms(1) show "\<not> recording (snd (recordCallback inputBuffer framesPerBuffer d))"
    by simp
next
  have "vsize (recordedSamples d) = maxSamples d"
    using assms(1) by (simp add: vsize_def)
  then have no: "\<not> limitHit 0 d"
    by (simp add: limitHit_def)
  then show "samples (snd (recordCallback inputBuffer 0 d)) = samples d"
    by (simp add: recordCallback_elems framesToRecord_def appended_def split: option.split)
  from no show "fst (recordCallback inputBuffer 0 d) = paContinue \<longleftrightarrow> recording d"
    by (simp add: recordCallback_result)
qed

text \<open>The theorem at the buffer filled by one delivery of 220500 frames.\<close>

theorem full_buffer_takes_no_more_witness:
  "length (samples exactlyFull) = unat (maxSamples exactlyFull) \<and> 0 < maxSamples exactlyFull \<and>
   (0 :: ulong) < 512 \<and> unat (maxSamples exactlyFull) + unat (512 :: ulong) < 2 ^ 64 \<and>
   samples (snd (recordCallback (Some (\<lambda>k. 1)) 512 exactlyFull)) = samples exactlyFull \<and>
   fst (recordCallback (Some (\<lambda>k. 1)) 512 exactlyFull) = paComplete \<and>
   \<not> recording (snd (recordCallback (Some (\<lambda>k. 1)) 512 exactlyFull))"
  using full_buffer_takes_no_more [of exactlyFull 512 "Some (\<lambda>k. 1)"]
  by (simp add: exactlyFull_def eval_simps)

text \<open>
  The claim as first stated covers every \<open>framesPerBuffer\<close>. At the full buffer with the
  flag still true, an invocation with \<open>framesPerBuffer = 0\<close> returns \<^verbatim>\<open>paContinue\<close>.
\<close>

theorem continue_on_empty_delivery_when_full:
  "length (samples exactlyFull) = unat (maxSamples exactlyFull) \<and>
   fst (recordCallback None 0 exactlyFull) = paContinue"
  by (simp add: exactlyFull_def eval_simps)

subsection \<open>C4: the limit reached in the middle of a buffer\<close>

text \<open>
  C4, as amended. In a state within its limit (with \<open>maxSamples > 0\<close>), whenever
  \<open>length + framesPerBuffer\<close> exceeds \<open>maxSamples\<close> and \<open>framesPerBuffer\<close> is below
  \<open>2^64 - maxSamples\<close>, the callback appends exactly \<open>maxSamples - length\<close> samples (zeros
  for an absent input, the first samples of the input otherwise), clears the flag, returns
  \<^verbatim>\<open>paComplete\<close>, and leaves the buffer with exactly \<open>maxSamples\<close> samples.
\<close>

theorem headroom_recorded_at_limit:
  assumes "length (samples d) \<le> unat (maxSamples d)" and "0 < maxSamples d"
    and "unat (maxSamples d) < length (samples d) + unat framesPerBuffer"
    and "unat framesPerBuffer < 2 ^ 64 - unat (maxSamples d)"
  shows "samples (snd (recordCallback inputBuffer framesPerBuffer d)) =
      samples d @ appended inputBuffer (unat (maxSamples d) - length (samples d)) \<and>
    length (appended inputBuffer (unat (maxSamples d) - length (samples d))) =
      unat (maxSamples d) - length (samples d) \<and>
    \<not> recording (snd (recordCallback inputBuffer framesPerBuffer d)) \<and>
    fst (recordCallback inputBuffer framesPerBuffer d) = paComplete \<and>
    length (samples (snd (recordCallback inputBuffer framesPerBuffer d))) = unat (maxSamples d) \<and>
    maxSamples (snd (recordCallback inputBuffer framesPerBuffer d)) = maxSamples d"
proof -
  from assms(4) have "unat (maxSamples d) + unat framesPerBuffer < 2 ^ 64"
    by simp
  from limit_hit_mid_buffer [OF assms(1,2,3) this, of inputBuffer] show ?thesis
    by (simp add: length_appended recordCallback_maxSamples)
qed

text \<open>The theorem at 219988 recorded samples and a buffer of 1000 frames.\<close>

theorem headroom_recorded_at_limit_witness:
  "length (samples nearlyFull) \<le> unat (maxSamples nearlyFull) \<and> 0 < maxSamples nearlyFull \<and>
   unat (maxSamples nearlyFull) < length (samples nearlyFull) + unat (1000 :: ulong) \<and>
   unat (1000 :: ulong) < 2 ^ 64 - unat (maxSamples nearlyFull) \<and>
   samples (snd (recordCallback (Some (\<lambda>k. 1)) 1000 nearlyFull)) =
     samples nearlyFull @ map (\<lambda>k. 1) [0 ..< 512] \<and>
   \<not> recording (snd (recordCallback (Some (\<lambda>k. 1)) 1000 nearlyFull)) \<and>
   fst (recordCallback (Some (\<lambda>k. 1)) 1000 nearlyFull) = paComplete \<and>
   length (samples (snd (recordCallback (Some (\<lambda>k. 1)) 1000 nearlyFull))) = 220500"
  using headroom_recorded_at_limit [of nearlyFull 1000 "Some (\<lambda>k. 1)"]
  by (simp add: nearlyFull_def eval_simps appended_def)

text \<open>
  The claim as first stated covers every invocation whose frames exceed the headroom. With
  512 samples recorded and \<open>framesPerBuffer = 2^64 - 512\<close>, the frames exceed the headroom
  of 219988, but the sum of line 36 wraps to 0: the test is false and the count is not
  clamped. With an allocator that provides up to \<open>2^30\<close> elements the invocation ends in
  \<^verbatim>\<open>std::bad_alloc\<close>, with the flag still true and more than the headroom appended.
\<close>

theorem no_clamp_at_wrapping_frame_count:
  "length (samples oneBuffer) = 512 \<and> unat (maxSamples oneBuffer) = 220500 \<and>
   unat (maxSamples oneBuffer) < length (samples oneBuffer) + unat (0xFFFFFFFFFFFFFE00 :: ulong) \<and>
   \<not> limitHit 0xFFFFFFFFFFFFFE00 oneBuffer \<and>
   framesToRecord 0xFFFFFFFFFFFFFE00 oneBuffer = 0xFFFFFFFFFFFFFE00 \<and>
   fst (recordCallbackMem (2 ^ 30) None 0xFFFFFFFFFFFFFE00 oneBuffer) = Inl bad_alloc \<and>
   recording (snd (recordCallbackMem (2 ^ 30) None 0xFFFFFFFFFFFFFE00 oneBuffer)) \<and>
   length (samples oneBuffer) + (unat (maxSamples oneBuffer) - length (samples oneBuffer)) <
     length (samples (snd (recordCallbackMem (2 ^ 30) None 0xFFFFFFFFFFFFFE00 oneBuffer)))"
proof -
  have "(441000 :: nat) \<le> 2 ^ 30" and "(2 :: nat) ^ 30 < 2 ^ 61 - 1"
    by simp_all
  note thrown = wrapping_call_throws [OF this]
  have "length (samples oneBuffer) = 512" "unat (maxSamples oneBuffer) = 220500"
    "\<not> limitHit 0xFFFFFFFFFFFFFE00 oneBuffer"
    "framesToRecord 0xFFFFFFFFFFFFFE00 oneBuffer = 0xFFFFFFFFFFFFFE00"
    by (simp_all add: oneBuffer_def eval_simps)
  with thrown show ?thesis
    by simp
qed

subsection \<open>C5: 431 buffers of 512 frames\<close>

text \<open>
  C5. With the configuration of the program (44100 Hz, one channel, 5 seconds, so that
  \<open>maxSamples\<close> is 220500), a capture of 431 consecutive invocations of 512 frames each,
  whatever the input buffers hold and whether they are present or absent, with the stop flag
  never cleared from outside, ends with exactly 220500 recorded samples, and the 431st
  invocation returns \<^verbatim>\<open>paComplete\<close>. None of the first 430 invocations ends the stream:
  the transport delivers all 431 buffers.
\<close>

theorem scenario_431_buffers:
  assumes "length inps = 431"
  shows "maxSamples initData = 220500 \<and>
    length (samples (run (deliveries inps) initData)) = 220500 \<and>
    fst (recordCallback (last inps) FRAMES_PER_BUFFER (run (deliveries (butlast inps)) initData)) = paComplete \<and>
    transport True inps initData = (False, run (deliveries inps) initData)"
proof -
  from assms obtain front lst where inps: "inps = front @ [lst]" and front: "length front = 430"
    by (cases inps rule: rev_cases) auto
  let ?d = "run (deliveries front) initData"
  have "length (samples initData) + 512 * length front \<le> 220500"
    by (simp add: front recordedSamples_initData)
  from full_buffers_run [OF inBounds_initData maxSamples_initData recording_initData this]
  have d: "inBounds ?d" "maxSamples ?d = 220500" "recording ?d" "length (samples ?d) = 220160"
    "transport True front initData = (True, ?d)"
    by (simp_all add: front recordedSamples_initData)
  have fits: "unat (maxSamples ?d) + unat FRAMES_PER_BUFFER < 2 ^ 64"
    using d(2) by (rule FRAMES_PER_BUFFER_fits)
  have hit: "limitHit FRAMES_PER_BUFFER ?d"
    using d limitHit_nat [of ?d FRAMES_PER_BUFFER] fits
    by (simp add: inBounds_def FRAMES_PER_BUFFER_def)
  have n: "unat (framesToRecord FRAMES_PER_BUFFER ?d) = 340"
    using d framesToRecord_limit [OF _ hit] by (simp add: inBounds_def)
  let ?r = "recordCallback lst FRAMES_PER_BUFFER ?d"
  have r: "fst ?r = paComplete"
    using hit by (simp add: recordCallback_result)
  have len: "length (samples (snd ?r)) = 220500"
    using d(4) n by (simp add: recordCallback_elems length_appended)
  have run: "run (deliveries inps) initData = snd ?r"
    by (simp add: inps deliveries_def run_append)
  have "transport True inps initData = transport True [lst] ?d"
    by (simp add: inps transport_append d(5))
  also have "\<dots> = (False, snd ?r)"
    using r by (simp add: split_beta)
  finally show ?thesis
    using r len run by (simp add: maxSamples_initData inps)
qed

text \<open>The theorem at 431 absent input buffers.\<close>

theorem scenario_431_buffers_witness:
  "length (replicate 431 (None :: (nat \<Rightarrow> sample) option)) = 431 \<and>
   maxSamples initData = 220500 \<and>
   length (samples (run (deliveries (replicate 431 None)) initData)) = 220500 \<and>
   fst (recordCallback (last (replicate 431 None)) FRAMES_PER_BUFFER
     (run (deliveries (butlast (replicate 431 None))) initData)) = paComplete \<and>
   transport True (replicate 431 None) initData = (False, run (deliveries (replicate 431 None)) initData)"
  using scenario_431_buffers [of "replicate 431 None"] by simp

subsection \<open>C6: exit codes\<close>

text \<open>
  C6. The exit code of the process is 0 when every step succeeds. It is 1 when there is no
  default input device, when the output file cannot be opened, and when it cannot be closed.
  A short write (\<^verbatim>\<open>sf_write_float\<close> returns a count other than the number of samples) is
  reported on \<^verbatim>\<open>stderr\<close> and does not change the exit code.
\<close>

theorem exit_codes:
  "(streamRan env \<and> sf_open env \<and> sf_write_float env = vsize (recordedSamples (captured env)) \<and>
      sf_close env = 0 \<longrightarrow> main env = (0, [])) \<and>
   (Pa_GetDefaultInputDevice env = paNoDevice \<longrightarrow> fst (main env) = 1) \<and>
   (\<not> sf_open env \<longrightarrow> fst (main env) = 1) \<and>
   (sf_close env \<noteq> 0 \<longrightarrow> fst (main env) = 1) \<and>
   (streamRan env \<and> sf_open env \<and> sf_write_float env \<noteq> vsize (recordedSamples (captured env)) \<longrightarrow>
      ErrorWritingSamples (vsize (recordedSamples (captured env))) (sf_write_float env)
        \<in> set (snd (main env))) \<and>
   fst (main (env\<lparr>sf_write_float := written\<rparr>)) = fst (main env)"
proof (intro conjI impI)
  show "main env = (0, [])"
    if "streamRan env \<and> sf_open env \<and>
      sf_write_float env = vsize (recordedSamples (captured env)) \<and> sf_close env = 0"
    using that by (simp add: main_streamRan)
  have code: "fst (main env) = 1" if "\<not> (streamRan env \<and> sf_open env \<and> sf_close env = 0)"
    using that main_exit_code [of env] main_exit_0 [of env] by blast
  show "fst (main env) = 1" if "Pa_GetDefaultInputDevice env = paNoDevice"
    using that by (intro code) (simp add: streamRan_def)
  show "fst (main env) = 1" if "\<not> sf_open env"
    using that by (intro code) simp
  show "fst (main env) = 1" if "sf_close env \<noteq> 0"
    using that by (intro code) simp
  show "ErrorWritingSamples (vsize (recordedSamples (captured env))) (sf_write_float env)
      \<in> set (snd (main env))"
    if "streamRan env \<and> sf_open env \<and> sf_write_float env \<noteq> vsize (recordedSamples (captured env))"
    using that by (simp add: main_streamRan)
  show "fst (main (env\<lparr>sf_write_float := written\<rparr>)) = fst (main env)"
    by (simp add: main_def handlePaError_def Let_def)
qed

text \<open>
  The theorem at a run in which everything succeeds, and at the same run without an input
  device, with a file that does not open, with a file that does not close, and with 500 of
  the 512 samples written.
\<close>

theorem exit_codes_witness:
  "streamRan okEnv \<and> sf_open okEnv \<and> sf_close okEnv = 0 \<and>
   sf_write_float okEnv = vsize (recordedSamples (captured okEnv)) \<and>
   main okEnv = (0, []) \<and>
   fst (main (okEnv\<lparr>Pa_GetDefaultInputDevice := paNoDevice\<rparr>)) = 1 \<and>
   fst (main (okEnv\<lparr>sf_open := False\<rparr>)) = 1 \<and>
   fst (main (okEnv\<lparr>sf_close := 1\<rparr>)) = 1 \<and>
   ErrorWritingSamples 512 500 \<in> set (snd (main (okEnv\<lparr>sf_write_float := 500\<rparr>))) \<and>
   fst (main (okEnv\<lparr>sf_write_float := 500\<rparr>)) = 0"
  using exit_codes [of okEnv 500]
    exit_codes [of "okEnv\<lparr>Pa_GetDefaultInputDevice := paNoDevice\<rparr>"]
    exit_codes [of "okEnv\<lparr>sf_open := False\<rparr>"]
    exit_codes [of "okEnv\<lparr>sf_close := 1\<rparr>"]
    exit_codes [of "okEnv\<lparr>sf_write_float := 500\<rparr>"]
    captured_okEnv
  by (simp add: streamRan_def captured_def okEnv_def paNoError_def paNoDevice_def)

subsection \<open>C7: an absent input buffer\<close>


subsection \<open>C8: the callback only appends\<close>

text \<open>
  C8. The buffer before an invocation is a prefix of the buffer after it; what is appended
  from a present input is the first \<open>framesToRecord\<close> samples of the input, in their order.
  The same holds along any run of invocations and stop signals.
\<close>

theorem callback_only_appends:
  "prefix (samples d) (samples (snd (recordCallback inputBuffer framesPerBuffer d))) \<and>
   samples (snd (recordCallback (Some buf) framesPerBuffer d)) =
     samples d @ map buf [0 ..< unat (framesToRecord framesPerBuffer d)] \<and>
   prefix (samples d) (samples (run es d))"
  by (simp add: recordCallback_elems appended_def prefix_run)

subsection \<open>C9: no reallocation during capture\<close>

text \<open>
  C9. \<^verbatim>\<open>main\<close> starts the capture with an empty buffer whose capacity is \<open>maxSamples\<close>.
  Whatever buffers the transport delivers before and after the stop signal, the vector goes
  through no reallocation during the capture: its counter of reallocations and its capacity
  are what they were when the transport started, and its length stays within the capacity.
  By \<open>reallocs_push_back\<close>, a \<^verbatim>\<open>push_back\<close> leaves the counter unchanged exactly when it
  finds the length below the capacity, so every append of the capture did.
\<close>

theorem no_reallocation_during_capture:
  "samples initData = [] \<and>
   capacity (recordedSamples initData) = unat (maxSamples initData) \<and>
   reallocs (recordedSamples (capture early late initData)) = reallocs (recordedSamples initData) \<and>
   capacity (recordedSamples (capture early late initData)) = capacity (recordedSamples initData) \<and>
   length (samples (capture early late initData)) \<le> capacity (recordedSamples initData)"
  using capture_no_realloc [of early late]
  by (simp add: recordedSamples_initData maxSamples_initData)

subsection \<open>C10: the flag is never set again\<close>



end
